theory Spec2Isabelle
  imports Complex_Main "HOL-Library.Sublist"
begin

section \<open>Modules, parameters and their mutable flags\<close>

text \<open>
  The embedding follows \<^verbatim>\<open>modelci/experimental/finetuner/transfer_learning.py\<close>.

  A \<^verbatim>\<open>torch.nn.Module\<close> is an object with an identity, a class (only membership in
  \<^verbatim>\<open>BN_TYPES\<close> is ever inspected), the parameters registered on it directly and its
  registered child modules, in registration order (what \<^verbatim>\<open>list(module.children())\<close>
  returns). A parameter is a tensor object; the code only reads and writes its
  \<^verbatim>\<open>requires_grad\<close> attribute and compares parameters by identity, so a parameter is
  represented by its identity. Two modules may register the same parameter object.

  The mutable attributes live in an explicit store: \<open>requires_grad\<close> of every parameter
  and \<open>training\<close> of every module, addressed by identity.
\<close>

type_synonym param = nat
type_synonym ident = nat

datatype module =
  Module (mid: ident) (is_bn: bool) (own_params: "param list") (children: "module list")

record state =
  requires_grad :: "param \<Rightarrow> bool"
  training :: "ident \<Rightarrow> bool"

text \<open>
  \<^verbatim>\<open>module.parameters()\<close> walks the module and all its descendants in pre-order and
  yields every registered parameter once: a memo of the objects seen so far suppresses a
  second occurrence.
\<close>

fun all_params :: "module \<Rightarrow> param list" where
  "all_params (Module i b ps cs) = ps @ concat (map all_params cs)"

fun unseen :: "'a list \<Rightarrow> 'a list \<Rightarrow> 'a list" where
  "unseen memo [] = []"
| "unseen memo (x # xs) =
     (if x \<in> set memo then unseen memo xs else x # unseen (x # memo) xs)"

definition parameters :: "module \<Rightarrow> param list" where
  "parameters m = unseen [] (all_params m)"

text \<open>The identities of a module and of all its descendants, in pre-order.\<close>

fun modules :: "module \<Rightarrow> ident list" where
  "modules (Module i b ps cs) = i # concat (map modules cs)"

text \<open>
  \<^verbatim>\<open>module.train(mode)\<close> sets \<^verbatim>\<open>training\<close> on the module and then on each child,
  recursively; \<^verbatim>\<open>module.eval()\<close> is \<^verbatim>\<open>module.train(False)\<close>.
\<close>

fun train :: "module \<Rightarrow> bool \<Rightarrow> state \<Rightarrow> state" where
  "train (Module i b ps cs) mode s =
     fold (\<lambda>child. train child mode) cs (s\<lparr>training := (training s)(i := mode)\<rparr>)"

definition eval_mode :: "module \<Rightarrow> state \<Rightarrow> state" where
  "eval_mode m s = train m False s"

definition set_requires_grad :: "bool \<Rightarrow> param \<Rightarrow> state \<Rightarrow> state" where
  "set_requires_grad v p s = s\<lparr>requires_grad := (requires_grad s)(p := v)\<rparr>"

section \<open>The utility functions\<close>

text \<open>\<^verbatim>\<open>_make_trainable\<close> (lines 54-62).\<close>

definition make_trainable :: "module \<Rightarrow> state \<Rightarrow> state" where
  "make_trainable m s = train m True (fold (set_requires_grad True) (parameters m) s)"

text \<open>\<^verbatim>\<open>_recursive_freeze\<close> (lines 65-83).\<close>

fun recursive_freeze :: "module \<Rightarrow> bool \<Rightarrow> state \<Rightarrow> state" where
  "recursive_freeze (Module i b ps cs) train_bn s =
     (if cs = [] then
        (if \<not> (b \<and> train_bn)
         then eval_mode (Module i b ps cs)
                (fold (set_requires_grad False) (parameters (Module i b ps cs)) s)
         else make_trainable (Module i b ps cs) s)
      else fold (\<lambda>child. recursive_freeze child train_bn) cs s)"

text \<open>
  Python's slices \<^verbatim>\<open>xs[:k]\<close> and \<^verbatim>\<open>xs[k:]\<close> for an integer \<open>k\<close>: a negative bound
  counts from the end, and the bound is then clamped to \<open>0 .. len(xs)\<close>.
\<close>

definition slice_bound :: "int \<Rightarrow> nat \<Rightarrow> nat" where
  "slice_bound k len =
     (if k < 0 then (if k + int len < 0 then 0 else nat (k + int len))
      else (if int len < k then len else nat k))"

definition slice_to :: "'a list \<Rightarrow> int \<Rightarrow> 'a list" where
  "slice_to xs k = take (slice_bound k (length xs)) xs"

definition slice_from :: "'a list \<Rightarrow> int \<Rightarrow> 'a list" where
  "slice_from xs k = drop (slice_bound k (length xs)) xs"

text \<open>
  \<^verbatim>\<open>freeze\<close> (lines 86-102). The argument \<open>n\<close> is an \<^verbatim>\<open>Optional[int]\<close>, on which
  \<^verbatim>\<open>int(n)\<close> is the identity. The body contains no \<^verbatim>\<open>raise\<close>, so the function
  always returns: it is a total state transformer.
\<close>

definition freeze :: "module \<Rightarrow> int option \<Rightarrow> bool \<Rightarrow> state \<Rightarrow> state" where
  "freeze m n train_bn s =
     (let chs = children m;
          n_max = (case n of None \<Rightarrow> int (length chs) | Some k \<Rightarrow> k);
          s1 = fold (\<lambda>child. recursive_freeze child train_bn) (slice_to chs n_max) s
      in fold make_trainable (slice_from chs n_max) s1)"

text \<open>
  \<^verbatim>\<open>filter_params\<close> (lines 105-124) is a generator; it reads the flags when it is
  consumed. Its only consumer materialises it at once, so the yielded sequence is a
  function of the state at that moment.
\<close>

fun filter_params :: "module \<Rightarrow> bool \<Rightarrow> state \<Rightarrow> param list" where
  "filter_params (Module i b ps cs) train_bn s =
     (if cs = [] then
        (if \<not> (b \<and> train_bn)
         then filter (requires_grad s) (parameters (Module i b ps cs))
         else [])
      else concat (map (\<lambda>child. filter_params child train_bn s) cs))"

section \<open>The optimizer\<close>

text \<open>
  The optimizer is a \<^verbatim>\<open>torch.optim.Optimizer\<close>, which the repository uses and does not
  define. Of it the code reads \<^verbatim>\<open>param_groups[0]["lr"]\<close> and calls
  \<^verbatim>\<open>add_param_group\<close>. An optimizer is represented by its list \<^verbatim>\<open>param_groups\<close>; a
  group by its parameter list and its learning rate. Learning rates are Python floats;
  they are represented by real numbers, so the rounding of \<^verbatim>\<open>/ 10.0\<close> is not part of
  the model.

  \<^verbatim>\<open>add_param_group\<close> materialises the parameters with \<^verbatim>\<open>list(...)\<close>, raises
  \<^verbatim>\<open>ValueError\<close> ("some parameters appear in more than one parameter group") when one
  of them already belongs to a group of the optimizer, and appends the group otherwise.
  A group with no parameters is accepted; so is a group that lists a parameter twice.
\<close>

record param_group =
  params :: "param list"
  lr :: real

type_synonym optimizer = "param_group list"

datatype error = IndexError | ValueError

definition overlaps :: "param list \<Rightarrow> optimizer \<Rightarrow> bool" where
  "overlaps ps optimizer = list_ex (\<lambda>p. p \<in> set (concat (map params optimizer))) ps"

definition add_param_group :: "param_group \<Rightarrow> optimizer \<Rightarrow> error + optimizer" where
  "add_param_group g optimizer =
     (if overlaps (params g) optimizer then Inl ValueError else Inr (optimizer @ [g]))"

text \<open>
  \<^verbatim>\<open>_unfreeze_and_add_param_group\<close> (lines 127-138). Line 131 has changed the flags
  before either \<^verbatim>\<open>optimizer.param_groups[0]\<close> (\<^verbatim>\<open>IndexError\<close> on an optimizer
  without groups) or \<^verbatim>\<open>add_param_group\<close> can raise, so an error carries the state
  reached; the optimizer is then unchanged.
\<close>

definition unfreeze_and_add_param_group ::
  "module \<Rightarrow> optimizer \<Rightarrow> real option \<Rightarrow> bool \<Rightarrow> state
     \<Rightarrow> (error \<times> state) + (state \<times> optimizer)" where
  "unfreeze_and_add_param_group m optimizer lr_opt train_bn s =
     (let s1 = make_trainable m s in
      case (case lr_opt of
              None \<Rightarrow> (case optimizer of [] \<Rightarrow> Inl IndexError | g # _ \<Rightarrow> Inr (lr g))
            | Some l \<Rightarrow> Inr l) of
        Inl e \<Rightarrow> Inl (e, s1)
      | Inr params_lr \<Rightarrow>
          (case add_param_group
                  \<lparr>params = filter_params m train_bn s1, lr = params_lr / 10\<rparr> optimizer of
             Inl e \<Rightarrow> Inl (e, s1)
           | Inr optimizer' \<Rightarrow> Inr (s1, optimizer')))"

text \<open>
  \<^verbatim>\<open>configure_optimizers\<close> (lines 220-225) builds the optimizer from the parameters
  that require a gradient at that moment, as its group 0. The parameters of the
  \<^verbatim>\<open>FineTuneModule\<close> are those of its network: the loss and the two metrics are taken
  to register none. torch's optimizer raises \<^verbatim>\<open>ValueError\<close> on an empty parameter
  list. The learning rate scheduler of line 223 plays no part here.
\<close>

definition configure_optimizers :: "module \<Rightarrow> real \<Rightarrow> state \<Rightarrow> error + optimizer" where
  "configure_optimizers m lr0 s =
     (let ps = filter (requires_grad s) (parameters m)
      in if ps = [] then Inl ValueError else Inr [\<lparr>params = ps, lr = lr0\<rparr>])"

section \<open>Vocabulary of the properties\<close>

text \<open>The leaves of a module's tree (the modules without children), in pre-order.\<close>

fun leaves :: "module \<Rightarrow> module list" where
  "leaves (Module i b ps cs) =
     (if cs = [] then [Module i b ps cs] else concat (map leaves cs))"

text \<open>
  The state in which a leaf is left by the recursive freeze: every parameter of the leaf
  has the flag \<open>v\<close>, the leaf has the mode \<open>v\<close>, where \<open>v\<close> says whether the leaf is a
  normalization layer that is kept trainable.
\<close>

definition leaf_frozen :: "module \<Rightarrow> bool \<Rightarrow> state \<Rightarrow> state" where
  "leaf_frozen l train_bn s =
     \<lparr>requires_grad =
        (\<lambda>p. if p \<in> set (own_params l) then is_bn l \<and> train_bn else requires_grad s p),
      training = (training s)(mid l := is_bn l \<and> train_bn)\<rparr>"

text \<open>
  An example network: a root with a parameter of its own and three children, \<open>A\<close> a
  block of a convolution and a batch normalization, \<open>B\<close> a linear layer, \<open>C\<close> a batch
  normalization; and two states, everything frozen and in evaluation mode, or
  everything trainable and in training mode.
\<close>

definition conv1 :: module where "conv1 = Module 11 False [1, 2] []"
definition bn1 :: module where "bn1 = Module 12 True [3, 4] []"
definition blockA :: module where "blockA = Module 10 False [] [conv1, bn1]"
definition linB :: module where "linB = Module 20 False [5, 6] []"
definition bnC :: module where "bnC = Module 30 True [7] []"
definition net :: module where "net = Module 0 False [9] [blockA, linB, bnC]"

definition all_off :: state where
  "all_off = \<lparr>requires_grad = (\<lambda>p. False), training = (\<lambda>i. False)\<rparr>"

definition all_on :: state where
  "all_on = \<lparr>requires_grad = (\<lambda>p. True), training = (\<lambda>i. True)\<rparr>"

text \<open>A leaf without parameters, such as an activation layer.\<close>

definition relu :: module where "relu = Module 40 False [] []"

text \<open>
  An optimizer with one group, which holds the root's parameter, and the state in which
  exactly that parameter is trainable.
\<close>

definition opt0 :: optimizer where "opt0 = [\<lparr>params = [9], lr = 1 / 100\<rparr>]"

definition head_only :: state where
  "head_only = \<lparr>requires_grad = (\<lambda>p. p = 9), training = (\<lambda>i. i = 0)\<rparr>"

text \<open>
  The parameters of the leaves that are not normalization layers kept trainable, leaf by
  leaf; and the rate that is divided by ten.
\<close>

definition collected :: "module \<Rightarrow> bool \<Rightarrow> param list" where
  "collected m train_bn =
     concat (map parameters (filter (\<lambda>l. \<not> (is_bn l \<and> train_bn)) (leaves m)))"

definition base_lr :: "optimizer \<Rightarrow> real option \<Rightarrow> real" where
  "base_lr optimizer lr_opt = (case lr_opt of None \<Rightarrow> lr (optimizer ! 0) | Some l \<Rightarrow> l)"

text \<open>
  Sequences of calls of \<^verbatim>\<open>freeze\<close> and \<^verbatim>\<open>_unfreeze_and_add_param_group\<close> on one
  optimizer; the first exception ends the sequence. No two groups of an optimizer share
  a parameter when \<open>groups_disjoint\<close> holds.
\<close>

datatype call = Freeze module "int option" bool | Unfreeze module "real option" bool

fun step :: "call \<Rightarrow> state \<times> optimizer \<Rightarrow> (error \<times> state) + (state \<times> optimizer)" where
  "step (Freeze m n train_bn) (s, optimizer) = Inr (freeze m n train_bn s, optimizer)"
| "step (Unfreeze m lr_opt train_bn) (s, optimizer) =
     unfreeze_and_add_param_group m optimizer lr_opt train_bn s"

fun run :: "call list \<Rightarrow> state \<times> optimizer \<Rightarrow> (error \<times> state) + (state \<times> optimizer)" where
  "run [] w = Inr w"
| "run (c # cs) w = (case step c w of Inl e \<Rightarrow> Inl e | Inr w' \<Rightarrow> run cs w')"









definition opt_net :: optimizer where "opt_net = [\<lparr>params = [9, 3, 4, 7], lr = 1 / 100\<rparr>]"

section \<open>The stage scheduler\<close>

text \<open>
  Modelled from the spec: the Stage Scheduler (section 4.4 of the specification). The
  source has no scheduler: no schedule, no stage pointer and no \<^verbatim>\<open>on_epoch_end\<close>.
  The definition follows the specification's transition rule: while the next un-fired
  threshold is at most the epoch index, resolve that stage's subtree (an unresolvable
  selector fails with \<^verbatim>\<open>InvalidStageTargetError\<close>), call the synchronizer
  (\<open>unfreeze_and_add_param_group\<close>, the one part that the source has) on it with the
  stage's learning rate, and advance the pointer. A stage is a threshold, a selector and
  a learning rate or none; how a selector names a subtree is left open, so the resolution
  is a parameter. The scheduler's state is the pointer with the flags and the optimizer.
\<close>

type_synonym 'sel stage = "nat \<times> 'sel \<times> real option"

datatype sched_error = InvalidStageTargetError | SynchronizerError error

function on_epoch_end ::
  "('sel \<Rightarrow> module option) \<Rightarrow> bool \<Rightarrow> 'sel stage list \<Rightarrow> nat
     \<Rightarrow> nat \<times> state \<times> optimizer \<Rightarrow> sched_error + (nat \<times> state \<times> optimizer)" where
  "on_epoch_end resolve train_bn schedule epoch (pointer, s, optimizer) =
     (if pointer < length schedule \<and> fst (schedule ! pointer) \<le> epoch then
        (case resolve (fst (snd (schedule ! pointer))) of
           None \<Rightarrow> Inl InvalidStageTargetError
         | Some m \<Rightarrow>
             (case unfreeze_and_add_param_group m optimizer
                     (snd (snd (schedule ! pointer))) train_bn s of
                Inl e \<Rightarrow> Inl (SynchronizerError (fst e))
              | Inr w \<Rightarrow> on_epoch_end resolve train_bn schedule epoch (Suc pointer, fst w, snd w)))
      else Inr (pointer, s, optimizer))"
  by pat_completeness auto
termination
  by (relation "measure (\<lambda>(resolve, train_bn, schedule, epoch, pointer, s, optimizer).
        length schedule - pointer)") auto

declare on_epoch_end.simps [simp del]

fun epochs ::
  "('sel \<Rightarrow> module option) \<Rightarrow> bool \<Rightarrow> 'sel stage list \<Rightarrow> nat list
     \<Rightarrow> nat \<times> state \<times> optimizer \<Rightarrow> sched_error + (nat \<times> state \<times> optimizer)" where
  "epochs resolve train_bn schedule [] w = Inr w"
| "epochs resolve train_bn schedule (e # es) w =
     (case on_epoch_end resolve train_bn schedule e w of
        Inl err \<Rightarrow> Inl err
      | Inr w' \<Rightarrow> epochs resolve train_bn schedule es w')"

text \<open>An example schedule with the thresholds 5 and 10.\<close>

definition pick :: "nat \<Rightarrow> module option" where
  "pick k = (if k = 0 then Some blockA else if k = 1 then Some linB else None)"

definition plan :: "nat stage list" where
  "plan = [(5, 0, Some (1 / 10000)), (10, 1, None)]"

section \<open>Basic facts about the store\<close>

lemma set_unseen: "set (unseen memo xs) = set xs - set memo"
  by (induction xs arbitrary: memo) auto

lemma set_parameters: "set (parameters m) = set (all_params m)"
  by (simp add: parameters_def set_unseen)

lemma distinct_unseen: "distinct (unseen memo xs)"
  by (induction xs arbitrary: memo) (auto simp: set_unseen)

lemma requires_grad_fold_set:
  "requires_grad (fold (set_requires_grad v) ps s) p = (if p \<in> set ps then v else requires_grad s p)"
  by (induction ps arbitrary: s) (auto simp: set_requires_grad_def)

lemma training_fold_set:
  "training (fold (set_requires_grad v) ps s) = training s"
  by (induction ps arbitrary: s) (auto simp: set_requires_grad_def)

lemma requires_grad_train: "requires_grad (train m mode s) = requires_grad s"
proof (induction m mode s rule: train.induct)
  case (1 i b ps cs mode s)
  have "\<And>s. requires_grad (fold (\<lambda>child. train child mode) xs s) = requires_grad s" if "set xs \<subseteq> set cs" for xs
    using that
  proof (induction xs)
    case Nil then show ?case by simp
  next
    case (Cons x xs) then show ?case using 1 by simp
  qed
  then show ?case by simp
qed

lemma training_train:
  "training (train m mode s) j = (if j \<in> set (modules m) then mode else training s j)"
proof (induction m mode s arbitrary: j rule: train.induct)
  case (1 i b ps cs mode s)
  have "\<And>s. training (fold (\<lambda>child. train child mode) xs s) j =
        (if j \<in> (\<Union>c\<in>set xs. set (modules c)) then mode else training s j)" if "set xs \<subseteq> set cs" for xs
    using that
  proof (induction xs)
    case Nil then show ?case by simp
  next
    case (Cons x xs) then show ?case using 1 by simp
  qed
  then show ?case by simp
qed


lemma requires_grad_make_trainable:
  "requires_grad (make_trainable m s) p = (p \<in> set (all_params m) \<or> requires_grad s p)"
  by (simp add: make_trainable_def requires_grad_train requires_grad_fold_set set_parameters)

lemma training_make_trainable:
  "training (make_trainable m s) j = (j \<in> set (modules m) \<or> training s j)"
  by (simp add: make_trainable_def training_train training_fold_set)

lemma state_eqI:
  "requires_grad s = requires_grad t \<Longrightarrow> training s = training t \<Longrightarrow> s = (t::state)"
  by simp

lemma recursive_freeze_leaf:
  assumes "children m = []"
  shows "recursive_freeze m train_bn s = leaf_frozen m train_bn s"
proof (cases m)
  case (Module i b ps cs)
  with assms have cs: "cs = []" by simp
  show ?thesis
  proof (rule state_eqI)
    show "requires_grad (recursive_freeze m train_bn s) = requires_grad (leaf_frozen m train_bn s)"
      unfolding Module cs leaf_frozen_def
      by (auto simp: fun_eq_iff eval_mode_def requires_grad_train requires_grad_fold_set
            set_parameters requires_grad_make_trainable)
    show "training (recursive_freeze m train_bn s) = training (leaf_frozen m train_bn s)"
      unfolding Module cs leaf_frozen_def
      by (auto simp: fun_eq_iff eval_mode_def training_train training_fold_set
            training_make_trainable)
  qed
qed

lemma recursive_freeze_leaves:
  "recursive_freeze m train_bn s = fold (\<lambda>l. recursive_freeze l train_bn) (leaves m) s"
proof (induction m train_bn s rule: recursive_freeze.induct)
  case (1 i b ps cs train_bn s)
  show ?case
  proof (cases "cs = []")
    case True
    then show ?thesis by simp
  next
    case False
    have "\<And>s. fold (\<lambda>child. recursive_freeze child train_bn) xs s =
            fold (\<lambda>l. recursive_freeze l train_bn) (concat (map leaves xs)) s"
      if "set xs \<subseteq> set cs" for xs
      using that
    proof (induction xs)
      case Nil then show ?case by simp
    next
      case (Cons x xs)
      then show ?case using 1 False by simp
    qed
    with False show ?thesis by simp
  qed
qed

lemma leaves_are_leaves: "l \<in> set (leaves m) \<Longrightarrow> children l = []"
  by (induction m rule: leaves.induct) (auto split: if_splits)


lemma requires_grad_fold_leaves:
  assumes "\<forall>l\<in>set ls. children l = []" and "p \<notin> (\<Union>l\<in>set ls. set (own_params l))"
  shows "requires_grad (fold (\<lambda>l. recursive_freeze l train_bn) ls s) p = requires_grad s p"
  using assms
  by (induction ls arbitrary: s) (auto simp: recursive_freeze_leaf leaf_frozen_def)

lemma training_fold_leaves:
  assumes "\<forall>l\<in>set ls. children l = []" and "j \<notin> mid ` set ls"
  shows "training (fold (\<lambda>l. recursive_freeze l train_bn) ls s) j = training s j"
  using assms
  by (induction ls arbitrary: s) (auto simp: recursive_freeze_leaf leaf_frozen_def)

text \<open>Evaluation of the example network.\<close>

lemmas net_defs = net_def blockA_def conv1_def bn1_def linB_def bnC_def
lemmas run_defs = freeze_def slice_to_def slice_from_def slice_bound_def make_trainable_def
  eval_mode_def parameters_def set_requires_grad_def Let_def all_off_def all_on_def

section \<open>The recursive freeze\<close>

text \<open>
  Claim C2. The recursive freeze of a module is the treatment of its leaves, one after
  the other in pre-order. A leaf that is a normalization layer, when \<open>train_bn\<close> holds,
  gets all its parameters trainable and is put in training mode; any other leaf gets all
  its parameters frozen and is put in evaluation mode (\<open>leaf_frozen\<close>). A module with
  children only recurses into each child with the same flag. No parameter outside the
  leaves and no mode of a module that is not a leaf changes.
\<close>

theorem recursive_freeze_on_leaves:
  "recursive_freeze m train_bn s = fold (\<lambda>l. recursive_freeze l train_bn) (leaves m) s
   \<and> (\<forall>l\<in>set (leaves m). children l = []
        \<and> (\<forall>t. recursive_freeze l train_bn t = leaf_frozen l train_bn t))
   \<and> (children m \<noteq> [] \<longrightarrow>
        recursive_freeze m train_bn s
          = fold (\<lambda>child. recursive_freeze child train_bn) (children m) s)
   \<and> (\<forall>p. p \<notin> (\<Union>l\<in>set (leaves m). set (own_params l)) \<longrightarrow>
        requires_grad (recursive_freeze m train_bn s) p = requires_grad s p)
   \<and> (\<forall>j. j \<notin> mid ` set (leaves m) \<longrightarrow>
        training (recursive_freeze m train_bn s) j = training s j)"
proof (intro conjI)
  show "recursive_freeze m train_bn s = fold (\<lambda>l. recursive_freeze l train_bn) (leaves m) s"
    by (rule recursive_freeze_leaves)
  show "\<forall>l\<in>set (leaves m). children l = []
        \<and> (\<forall>t. recursive_freeze l train_bn t = leaf_frozen l train_bn t)"
    by (simp add: leaves_are_leaves recursive_freeze_leaf)
  show "children m \<noteq> [] \<longrightarrow>
        recursive_freeze m train_bn s
          = fold (\<lambda>child. recursive_freeze child train_bn) (children m) s"
    by (cases m) simp
  show "\<forall>p. p \<notin> (\<Union>l\<in>set (leaves m). set (own_params l)) \<longrightarrow>
        requires_grad (recursive_freeze m train_bn s) p = requires_grad s p"
    using requires_grad_fold_leaves [of "leaves m"] leaves_are_leaves
    by (simp add: recursive_freeze_leaves [of m])
  show "\<forall>j. j \<notin> mid ` set (leaves m) \<longrightarrow>
        training (recursive_freeze m train_bn s) j = training s j"
    using training_fold_leaves [of "leaves m"] leaves_are_leaves
    by (simp add: recursive_freeze_leaves [of m])
qed

theorem recursive_freeze_on_leaves_witness:
  "children net \<noteq> [] \<and> bn1 \<in> set (leaves net) \<and> conv1 \<in> set (leaves net)
   \<and> recursive_freeze net True all_on
       = fold (\<lambda>l. recursive_freeze l True) [conv1, bn1, linB, bnC] all_on
   \<and> recursive_freeze net True all_on
       = fold (\<lambda>child. recursive_freeze child True) [blockA, linB, bnC] all_on
   \<and> recursive_freeze bn1 True all_off = leaf_frozen bn1 True all_off
   \<and> requires_grad (leaf_frozen bn1 True all_off) 3
   \<and> training (leaf_frozen bn1 True all_off) 12
   \<and> recursive_freeze conv1 True all_on = leaf_frozen conv1 True all_on
   \<and> \<not> requires_grad (leaf_frozen conv1 True all_on) 1
   \<and> \<not> training (leaf_frozen conv1 True all_on) 11
   \<and> 9 \<notin> (\<Union>l\<in>set (leaves net). set (own_params l))
   \<and> requires_grad (recursive_freeze net True all_on) 9 = requires_grad all_on 9
   \<and> 10 \<notin> mid ` set (leaves net)
   \<and> training (recursive_freeze net True all_on) 10 = training all_on 10"
proof -
  have L: "leaves net = [conv1, bn1, linB, bnC]"
    by (simp add: net_def blockA_def conv1_def bn1_def linB_def bnC_def)
  have C: "children net = [blockA, linB, bnC]"
    by (simp add: net_def)
  have P: "9 \<notin> (\<Union>l\<in>set (leaves net). set (own_params l))" "10 \<notin> mid ` set (leaves net)"
    by (simp_all add: L conv1_def bn1_def linB_def bnC_def)
  have V: "requires_grad (leaf_frozen bn1 True all_off) 3" "training (leaf_frozen bn1 True all_off) 12"
    "\<not> requires_grad (leaf_frozen conv1 True all_on) 1" "\<not> training (leaf_frozen conv1 True all_on) 11"
    by (simp_all add: leaf_frozen_def bn1_def conv1_def)
  note T = recursive_freeze_on_leaves [of net True all_on]
  from T have 1: "recursive_freeze net True all_on
       = fold (\<lambda>l. recursive_freeze l True) [conv1, bn1, linB, bnC] all_on"
    unfolding L by (rule conjunct1)
  from T have 2: "recursive_freeze bn1 True all_off = leaf_frozen bn1 True all_off"
     "recursive_freeze conv1 True all_on = leaf_frozen conv1 True all_on"
    unfolding L by simp_all
  from T have "children net \<noteq> [] \<longrightarrow> recursive_freeze net True all_on
       = fold (\<lambda>child. recursive_freeze child True) (children net) all_on"
    by (rule conjunct2 [THEN conjunct2, THEN conjunct1])
  then have 3: "recursive_freeze net True all_on
       = fold (\<lambda>child. recursive_freeze child True) [blockA, linB, bnC] all_on"
    unfolding C by simp
  from T P have 4: "requires_grad (recursive_freeze net True all_on) 9 = requires_grad all_on 9"
    "training (recursive_freeze net True all_on) 10 = training all_on 10"
    by blast+
  have M: "children net \<noteq> []" "bn1 \<in> set (leaves net)" "conv1 \<in> set (leaves net)"
    by (simp_all add: L C)
  from M 1 3 2 V P 4 show ?thesis by (intro conjI)
qed

section \<open>The partial freeze\<close>

lemma slice_bound_nonneg: "0 \<le> k \<Longrightarrow> slice_bound k len = min (nat k) len"
  by (auto simp: slice_bound_def)

lemma slice_bound_neg: "k < 0 \<Longrightarrow> slice_bound k len = nat (max (int len + k) 0)"
  by (auto simp: slice_bound_def)

lemma requires_grad_fold_make_trainable:
  "requires_grad (fold make_trainable cs s) p
     = (p \<in> (\<Union>c\<in>set cs. set (all_params c)) \<or> requires_grad s p)"
  by (induction cs arbitrary: s) (auto simp: requires_grad_make_trainable)

lemma training_fold_make_trainable:
  "training (fold make_trainable cs s) j
     = (j \<in> (\<Union>c\<in>set cs. set (modules c)) \<or> training s j)"
  by (induction cs arbitrary: s) (auto simp: training_make_trainable)

lemma leaf_params_subset:
  "l \<in> set (leaves m) \<Longrightarrow> set (own_params l) \<subseteq> set (all_params m)"
  by (induction m rule: leaves.induct) (auto split: if_splits)

lemma leaf_mid_in_modules:
  "l \<in> set (leaves m) \<Longrightarrow> mid l \<in> set (modules m)"
  by (induction m rule: leaves.induct) (auto split: if_splits)

lemma requires_grad_recursive_freeze_frame:
  assumes "p \<notin> set (all_params m)"
  shows "requires_grad (recursive_freeze m train_bn s) p = requires_grad s p"
proof -
  have "p \<notin> (\<Union>l\<in>set (leaves m). set (own_params l))"
    using assms leaf_params_subset by blast
  then show ?thesis
    using requires_grad_fold_leaves [of "leaves m" p train_bn s] leaves_are_leaves
    by (simp add: recursive_freeze_leaves [of m])
qed

lemma training_recursive_freeze_frame:
  assumes "j \<notin> set (modules m)"
  shows "training (recursive_freeze m train_bn s) j = training s j"
proof -
  have "j \<notin> mid ` set (leaves m)"
    using assms leaf_mid_in_modules by blast
  then show ?thesis
    using training_fold_leaves [of "leaves m" j train_bn s] leaves_are_leaves
    by (simp add: recursive_freeze_leaves [of m])
qed

lemma requires_grad_fold_recursive_freeze_frame:
  "p \<notin> (\<Union>c\<in>set cs. set (all_params c)) \<Longrightarrow>
   requires_grad (fold (\<lambda>child. recursive_freeze child train_bn) cs s) p = requires_grad s p"
  by (induction cs arbitrary: s) (auto simp: requires_grad_recursive_freeze_frame)

lemma training_fold_recursive_freeze_frame:
  "j \<notin> (\<Union>c\<in>set cs. set (modules c)) \<Longrightarrow>
   training (fold (\<lambda>child. recursive_freeze child train_bn) cs s) j = training s j"
  by (induction cs arbitrary: s) (auto simp: training_recursive_freeze_frame)

lemma freeze_take_drop:
  "freeze m n train_bn s =
     (let k = slice_bound (case n of None \<Rightarrow> int (length (children m)) | Some i \<Rightarrow> i)
                (length (children m))
      in fold make_trainable (drop k (children m))
           (fold (\<lambda>child. recursive_freeze child train_bn) (take k (children m)) s))"
  by (simp add: freeze_def slice_to_def slice_from_def Let_def)

lemma fold_recursive_freeze_leaves:
  "fold (\<lambda>child. recursive_freeze child train_bn) cs s
     = fold (\<lambda>l. recursive_freeze l train_bn) (concat (map leaves cs)) s"
  by (induction cs arbitrary: s) (simp_all add: recursive_freeze_leaves [symmetric])

lemma subseq_concat_leaves:
  assumes "\<And>c. c \<in> set cs \<Longrightarrow> subseq (concat (map f (leaves c))) (g c)"
  shows "subseq (concat (map f (concat (map leaves cs)))) (concat (map g cs))"
  using assms by (induction cs) (auto intro: list_emb_append_mono)

lemma subseq_leaf_params: "subseq (concat (map own_params (leaves m))) (all_params m)"
proof (induction m rule: leaves.induct)
  case (1 i b ps cs)
  show ?case
  proof (cases "cs = []")
    case True then show ?thesis by simp
  next
    case False
    have "subseq (concat (map own_params (concat (map leaves cs)))) (concat (map all_params cs))"
      using 1 False by (intro subseq_concat_leaves) simp
    then show ?thesis using False by (simp add: list_emb_append2)
  qed
qed

lemma subseq_leaf_mids: "subseq (map mid (leaves m)) (modules m)"
proof (induction m rule: leaves.induct)
  case (1 i b ps cs)
  show ?case
  proof (cases "cs = []")
    case True then show ?thesis by simp
  next
    case False
    have "subseq (concat (map (\<lambda>l. [mid l]) (concat (map leaves cs)))) (concat (map modules cs))"
      using 1 False by (intro subseq_concat_leaves) simp
    then have "subseq (map mid (concat (map leaves cs))) (concat (map modules cs))"
      by simp
    then show ?thesis using False by (simp add: list_emb_Cons)
  qed
qed

lemma requires_grad_fold_leaves_distinct:
  assumes "\<forall>l\<in>set ls. children l = []"
    and "distinct (concat (map own_params ls))"
    and "l \<in> set ls" and "p \<in> set (own_params l)"
  shows "requires_grad (fold (\<lambda>l. recursive_freeze l train_bn) ls s) p = (is_bn l \<and> train_bn)"
proof -
  from \<open>l \<in> set ls\<close> obtain xs ys where ls: "ls = xs @ l # ys"
    by (auto dest: split_list)
  have "p \<notin> (\<Union>l\<in>set ys. set (own_params l))"
    using assms(2,4) unfolding ls by auto
  moreover have "\<forall>l\<in>set ys. children l = []" "children l = []"
    using assms(1) unfolding ls by auto
  ultimately show ?thesis
    using assms(4) unfolding ls
    by (simp add: requires_grad_fold_leaves recursive_freeze_leaf leaf_frozen_def del: UN_iff)
qed

lemma training_fold_leaves_distinct:
  assumes "\<forall>l\<in>set ls. children l = []"
    and "distinct (map mid ls)"
    and "l \<in> set ls"
  shows "training (fold (\<lambda>l. recursive_freeze l train_bn) ls s) (mid l) = (is_bn l \<and> train_bn)"
proof -
  from \<open>l \<in> set ls\<close> obtain xs ys where ls: "ls = xs @ l # ys"
    by (auto dest: split_list)
  have "mid l \<notin> mid ` set ys"
    using assms(2) unfolding ls by auto
  moreover have "\<forall>l\<in>set ys. children l = []" "children l = []"
    using assms(1) unfolding ls by auto
  ultimately show ?thesis
    unfolding ls
    by (simp add: training_fold_leaves recursive_freeze_leaf leaf_frozen_def)
qed

lemma concat_map_take_drop:
  "concat (map f xs) = concat (map f (take k xs)) @ concat (map f (drop k xs))"
proof -
  have "concat (map f xs) = concat (map f (take k xs @ drop k xs))" by simp
  also have "\<dots> = concat (map f (take k xs)) @ concat (map f (drop k xs))"
    by (simp only: map_append concat_append)
  finally show ?thesis .
qed

lemma leaf_param_in_children:
  assumes "c \<in> set cs" and "l \<in> set (leaves c)" and "p \<in> set (own_params l)"
  shows "p \<in> set (concat (map all_params cs))"
proof -
  have "p \<in> set (all_params c)" using assms(2,3) leaf_params_subset by blast
  then show ?thesis using assms(1) by auto
qed

lemma leaf_mid_in_children:
  assumes "c \<in> set cs" and "l \<in> set (leaves c)"
  shows "mid l \<in> set (concat (map modules cs))"
proof -
  have "mid l \<in> set (modules c)" using assms(2) by (rule leaf_mid_in_modules)
  then show ?thesis using assms(1) by auto
qed

lemma notin_concatD:
  assumes "p \<notin> set (concat (map f xs))"
  shows "p \<notin> (\<Union>c\<in>set xs. set (f c))"
proof
  assume "p \<in> (\<Union>c\<in>set xs. set (f c))"
  then obtain c where "c \<in> set xs" "p \<in> set (f c)" by (rule UN_E)
  then have "p \<in> set (concat (map f xs))" by (induction xs) auto
  with assms show False by contradiction
qed

lemma subseq_distinct:
  assumes "subseq xs ys" and "distinct ys"
  shows "distinct xs"
proof -
  from assms(1) have "xs \<in> set (subseqs ys)" by (simp only: in_set_subseqs)
  then show ?thesis using assms(2) by (rule subseqs_distinctD)
qed

lemma distinct_leaf_params_of:
  assumes "distinct (concat (map all_params cs))"
  shows "distinct (concat (map own_params (concat (map leaves cs))))"
proof -
  have "subseq (concat (map own_params (concat (map leaves cs)))) (concat (map all_params cs))"
    by (intro subseq_concat_leaves subseq_leaf_params)
  then show ?thesis using assms by (rule subseq_distinct)
qed

lemma distinct_leaf_mids_of:
  assumes "distinct (concat (map modules cs))"
  shows "distinct (map mid (concat (map leaves cs)))"
proof -
  have "subseq (concat (map (\<lambda>l. [mid l]) (concat (map leaves cs)))) (concat (map modules cs))"
    by (intro subseq_concat_leaves) (simp add: subseq_leaf_mids)
  then have "subseq (map mid (concat (map leaves cs))) (concat (map modules cs))"
    by simp
  then show ?thesis using assms by (rule subseq_distinct)
qed

lemma frozen_prefix_requires_grad:
  assumes dist: "distinct (concat (map all_params cs))"
    and c: "c \<in> set (take k cs)" and l: "l \<in> set (leaves c)" and p: "p \<in> set (own_params l)"
  shows "requires_grad (fold make_trainable (drop k cs)
           (fold (\<lambda>child. recursive_freeze child train_bn) (take k cs) s)) p
         = (is_bn l \<and> train_bn)"
proof -
  let ?A = "concat (map all_params (take k cs))"
  let ?B = "concat (map all_params (drop k cs))"
  let ?ls = "concat (map leaves (take k cs))"
  from dist have d2: "distinct (?A @ ?B)"
    by (simp only: concat_map_take_drop [symmetric])
  have pin: "p \<in> set ?A"
    using c l p by (rule leaf_param_in_children)
  from d2 have "set ?A \<inter> set ?B = {}" by (simp only: distinct_append)
  with pin have "p \<notin> set ?B" by blast
  then have out: "p \<notin> (\<Union>c\<in>set (drop k cs). set (all_params c))"
    by (rule notin_concatD)
  from d2 have "distinct ?A" by (simp only: distinct_append)
  then have dl: "distinct (concat (map own_params ?ls))"
    by (rule distinct_leaf_params_of)
  have lin: "l \<in> set ?ls"
    using c l by (simp only: set_concat set_map) blast
  have lv: "\<forall>l\<in>set ?ls. children l = []"
    by (simp only: set_concat set_map) (blast dest: leaves_are_leaves)
  have 1: "requires_grad (fold (\<lambda>l. recursive_freeze l train_bn) ?ls s) p = (is_bn l \<and> train_bn)"
    using lv dl lin p by (rule requires_grad_fold_leaves_distinct)
  have "requires_grad (fold make_trainable (drop k cs)
           (fold (\<lambda>child. recursive_freeze child train_bn) (take k cs) s)) p
        = requires_grad (fold (\<lambda>child. recursive_freeze child train_bn) (take k cs) s) p"
    using out by (simp only: requires_grad_fold_make_trainable simp_thms)
  also have "\<dots> = (is_bn l \<and> train_bn)"
    by (subst fold_recursive_freeze_leaves) (rule 1)
  finally show ?thesis .
qed


lemma frozen_prefix_training:
  assumes dist: "distinct (concat (map modules cs))"
    and c: "c \<in> set (take k cs)" and l: "l \<in> set (leaves c)"
  shows "training (fold make_trainable (drop k cs)
           (fold (\<lambda>child. recursive_freeze child train_bn) (take k cs) s)) (mid l)
         = (is_bn l \<and> train_bn)"
proof -
  let ?A = "concat (map modules (take k cs))"
  let ?B = "concat (map modules (drop k cs))"
  let ?ls = "concat (map leaves (take k cs))"
  from dist have d2: "distinct (?A @ ?B)"
    by (simp only: concat_map_take_drop [symmetric])
  have pin: "mid l \<in> set ?A"
    using c l by (rule leaf_mid_in_children)
  from d2 have "set ?A \<inter> set ?B = {}" by (simp only: distinct_append)
  with pin have "mid l \<notin> set ?B" by blast
  then have out: "mid l \<notin> (\<Union>c\<in>set (drop k cs). set (modules c))"
    by (rule notin_concatD)
  from d2 have "distinct ?A" by (simp only: distinct_append)
  then have dl: "distinct (map mid ?ls)"
    by (rule distinct_leaf_mids_of)
  have lin: "l \<in> set ?ls"
    using c l by (simp only: set_concat set_map) blast
  have lv: "\<forall>l\<in>set ?ls. children l = []"
    by (simp only: set_concat set_map) (blast dest: leaves_are_leaves)
  have 1: "training (fold (\<lambda>l. recursive_freeze l train_bn) ?ls s) (mid l) = (is_bn l \<and> train_bn)"
    using lv dl lin by (rule training_fold_leaves_distinct)
  have "training (fold make_trainable (drop k cs)
           (fold (\<lambda>child. recursive_freeze child train_bn) (take k cs) s)) (mid l)
        = training (fold (\<lambda>child. recursive_freeze child train_bn) (take k cs) s) (mid l)"
    using out by (simp only: training_fold_make_trainable simp_thms)
  also have "\<dots> = (is_bn l \<and> train_bn)"
    by (subst fold_recursive_freeze_leaves) (rule 1)
  finally show ?thesis .
qed

text \<open>
  Claim C1. For a non-negative \<open>n\<close>, \<open>freeze\<close> applies the recursive freeze to the
  first \<open>n\<close> children, that is to \<open>min n (len children)\<close> of them, and then makes each
  remaining child trainable; \<open>None\<close> freezes every child, \<open>0\<close> freezes none and makes
  every child trainable. Afterwards every parameter of a remaining child is trainable and
  every module below it is in training mode. When no parameter is registered twice below
  the root, every parameter of a leaf of the frozen prefix is frozen, unless the leaf is
  a normalization layer kept trainable; likewise for the leaf's mode when no module
  occurs twice.
\<close>

theorem freeze_prefix:
  assumes "0 \<le> n"
  shows "freeze m (Some n) train_bn s =
           fold make_trainable (drop (nat n) (children m))
             (fold (\<lambda>child. recursive_freeze child train_bn) (take (nat n) (children m)) s)
       \<and> length (take (nat n) (children m)) = min (nat n) (length (children m))
       \<and> freeze m None train_bn s
           = fold (\<lambda>child. recursive_freeze child train_bn) (children m) s
       \<and> freeze m (Some 0) train_bn s = fold make_trainable (children m) s
       \<and> (\<forall>c\<in>set (drop (nat n) (children m)).
             (\<forall>p\<in>set (parameters c). requires_grad (freeze m (Some n) train_bn s) p)
           \<and> (\<forall>j\<in>set (modules c). training (freeze m (Some n) train_bn s) j))
       \<and> (distinct (concat (map all_params (children m))) \<longrightarrow>
           (\<forall>c\<in>set (take (nat n) (children m)). \<forall>l\<in>set (leaves c). \<forall>p\<in>set (own_params l).
              requires_grad (freeze m (Some n) train_bn s) p = (is_bn l \<and> train_bn)))
       \<and> (distinct (concat (map modules (children m))) \<longrightarrow>
           (\<forall>c\<in>set (take (nat n) (children m)). \<forall>l\<in>set (leaves c).
              training (freeze m (Some n) train_bn s) (mid l) = (is_bn l \<and> train_bn)))"
proof -
  have eq: "freeze m (Some n) train_bn s =
           fold make_trainable (drop (nat n) (children m))
             (fold (\<lambda>child. recursive_freeze child train_bn) (take (nat n) (children m)) s)"
    using assms by (simp add: freeze_take_drop slice_bound_nonneg Let_def min_def)
  have len: "length (take (nat n) (children m)) = min (nat n) (length (children m))"
    by simp
  have none: "freeze m None train_bn s
           = fold (\<lambda>child. recursive_freeze child train_bn) (children m) s"
    by (simp add: freeze_take_drop slice_bound_nonneg Let_def)
  have zero: "freeze m (Some 0) train_bn s = fold make_trainable (children m) s"
    by (simp add: freeze_take_drop slice_bound_nonneg Let_def)
  have rest: "\<forall>c\<in>set (drop (nat n) (children m)).
             (\<forall>p\<in>set (parameters c). requires_grad (freeze m (Some n) train_bn s) p)
           \<and> (\<forall>j\<in>set (modules c). training (freeze m (Some n) train_bn s) j)"
  proof (intro ballI conjI)
    fix c p assume "c \<in> set (drop (nat n) (children m))" "p \<in> set (parameters c)"
    then have "p \<in> (\<Union>c\<in>set (drop (nat n) (children m)). set (all_params c))"
      by (auto simp: set_parameters)
    then show "requires_grad (freeze m (Some n) train_bn s) p"
      unfolding eq by (simp only: requires_grad_fold_make_trainable simp_thms)
  next
    fix c j assume "c \<in> set (drop (nat n) (children m))" "j \<in> set (modules c)"
    then have "j \<in> (\<Union>c\<in>set (drop (nat n) (children m)). set (modules c))"
      by auto
    then show "training (freeze m (Some n) train_bn s) j"
      unfolding eq by (simp only: training_fold_make_trainable simp_thms)
  qed
  have frozen: "distinct (concat (map all_params (children m))) \<longrightarrow>
           (\<forall>c\<in>set (take (nat n) (children m)). \<forall>l\<in>set (leaves c). \<forall>p\<in>set (own_params l).
              requires_grad (freeze m (Some n) train_bn s) p = (is_bn l \<and> train_bn))"
    unfolding eq by (intro impI ballI) (rule frozen_prefix_requires_grad)
  have mode: "distinct (concat (map modules (children m))) \<longrightarrow>
           (\<forall>c\<in>set (take (nat n) (children m)). \<forall>l\<in>set (leaves c).
              training (freeze m (Some n) train_bn s) (mid l) = (is_bn l \<and> train_bn))"
    unfolding eq by (intro impI ballI) (rule frozen_prefix_training)
  from eq len none zero rest frozen mode show ?thesis by (intro conjI)
qed

theorem freeze_prefix_witness:
  "(0::int) \<le> 1
   \<and> freeze net (Some 1) True all_off
       = fold make_trainable [linB, bnC]
           (fold (\<lambda>child. recursive_freeze child True) [blockA] all_off)
   \<and> requires_grad (freeze net (Some 1) True all_off) 5
   \<and> training (freeze net (Some 1) True all_off) 20
   \<and> requires_grad (freeze net (Some 1) True all_off) 1 = False
   \<and> requires_grad (freeze net (Some 1) True all_off) 3 = True
   \<and> training (freeze net (Some 1) True all_off) 11 = False
   \<and> training (freeze net (Some 1) True all_off) 12 = True"
proof -
  have le: "(0::int) \<le> 1" by simp
  have tk: "take (nat 1) (children net) = [blockA]" "drop (nat 1) (children net) = [linB, bnC]"
    by (simp_all add: net_def)
  have dp: "distinct (concat (map all_params (children net)))"
    by (simp add: net_defs)
  have dm: "distinct (concat (map modules (children net)))"
    by (simp add: net_defs)
  have lv: "leaves blockA = [conv1, bn1]"
    by (simp add: net_defs)
  note T = freeze_prefix [OF le, of net True all_off, unfolded tk]
  from T have 1: "freeze net (Some 1) True all_off
       = fold make_trainable [linB, bnC]
           (fold (\<lambda>child. recursive_freeze child True) [blockA] all_off)"
    by (rule conjunct1)
  from T have r: "\<forall>c\<in>set [linB, bnC].
       (\<forall>p\<in>set (parameters c). requires_grad (freeze net (Some 1) True all_off) p)
     \<and> (\<forall>j\<in>set (modules c). training (freeze net (Some 1) True all_off) j)"
    by blast
  have "5 \<in> set (parameters linB)" "20 \<in> set (modules linB)"
    by (simp_all add: linB_def parameters_def)
  with r have 2: "requires_grad (freeze net (Some 1) True all_off) 5"
    "training (freeze net (Some 1) True all_off) 20"
    by simp_all
  from T dp have f: "\<forall>c\<in>set [blockA]. \<forall>l\<in>set (leaves c). \<forall>p\<in>set (own_params l).
       requires_grad (freeze net (Some 1) True all_off) p = (is_bn l \<and> True)"
    by blast
  from T dm have g: "\<forall>c\<in>set [blockA]. \<forall>l\<in>set (leaves c).
       training (freeze net (Some 1) True all_off) (mid l) = (is_bn l \<and> True)"
    by blast
  from f have 3: "requires_grad (freeze net (Some 1) True all_off) 1 = False"
    "requires_grad (freeze net (Some 1) True all_off) 3 = True"
    by (simp_all add: lv conv1_def bn1_def)
  from g have 4: "training (freeze net (Some 1) True all_off) 11 = False"
    "training (freeze net (Some 1) True all_off) 12 = True"
    by (simp_all add: lv conv1_def bn1_def)
  from le 1 2 3 4 show ?thesis by (intro conjI)
qed

lemma fold_leaves_leaf_frozen:
  assumes "\<forall>l\<in>set ls. children l = []"
  shows "fold (\<lambda>l. recursive_freeze l train_bn) ls s = fold (\<lambda>l. leaf_frozen l train_bn) ls s"
  using assms by (induction ls arbitrary: s) (simp_all add: recursive_freeze_leaf)

lemma fold_recursive_freeze_leaf_frozen:
  "fold (\<lambda>child. recursive_freeze child train_bn) cs s
     = fold (\<lambda>l. leaf_frozen l train_bn) (concat (map leaves cs)) s"
proof -
  have "\<forall>l\<in>set (concat (map leaves cs)). children l = []"
    by (auto dest: leaves_are_leaves)
  then have "fold (\<lambda>l. recursive_freeze l train_bn) (concat (map leaves cs)) s
     = fold (\<lambda>l. leaf_frozen l train_bn) (concat (map leaves cs)) s"
    by (rule fold_leaves_leaf_frozen)
  then show ?thesis by (subst fold_recursive_freeze_leaves)
qed

text \<open>
  Claim C9. A negative \<open>n\<close> raises nothing and is a Python slice bound: the first
  \<open>max (c + n) 0\<close> of the \<open>c\<close> children are recursively frozen, the remaining
  \<open>min (- n) c\<close> are made trainable. The frozen children are left as the treatment of
  their leaves leaves them (\<open>leaf_frozen\<close>, leaf after leaf). Afterwards every parameter
  of a remaining child is trainable and every module below it is in training mode; when
  no parameter is registered twice below the root, every parameter of a leaf of a frozen
  child is frozen, unless the leaf is a normalization layer kept trainable, and likewise
  for the leaf's mode when no module occurs twice.
\<close>

theorem freeze_negative:
  assumes "n < 0"
  shows "freeze m (Some n) train_bn s =
           fold make_trainable (drop (nat (max (int (length (children m)) + n) 0)) (children m))
             (fold (\<lambda>child. recursive_freeze child train_bn)
                (take (nat (max (int (length (children m)) + n) 0)) (children m)) s)
         \<and> length (take (nat (max (int (length (children m)) + n) 0)) (children m))
             = nat (max (int (length (children m)) + n) 0)
         \<and> length (drop (nat (max (int (length (children m)) + n) 0)) (children m))
             = min (nat (- n)) (length (children m))
         \<and> freeze m (Some n) train_bn s =
           fold make_trainable (drop (nat (max (int (length (children m)) + n) 0)) (children m))
             (fold (\<lambda>l. leaf_frozen l train_bn)
                (concat (map leaves
                   (take (nat (max (int (length (children m)) + n) 0)) (children m)))) s)
         \<and> (\<forall>c\<in>set (drop (nat (max (int (length (children m)) + n) 0)) (children m)).
               (\<forall>p\<in>set (parameters c). requires_grad (freeze m (Some n) train_bn s) p)
             \<and> (\<forall>j\<in>set (modules c). training (freeze m (Some n) train_bn s) j))
         \<and> (distinct (concat (map all_params (children m))) \<longrightarrow>
             (\<forall>c\<in>set (take (nat (max (int (length (children m)) + n) 0)) (children m)).
                \<forall>l\<in>set (leaves c). \<forall>p\<in>set (own_params l).
                  requires_grad (freeze m (Some n) train_bn s) p = (is_bn l \<and> train_bn)))
         \<and> (distinct (concat (map modules (children m))) \<longrightarrow>
             (\<forall>c\<in>set (take (nat (max (int (length (children m)) + n) 0)) (children m)).
                \<forall>l\<in>set (leaves c).
                  training (freeze m (Some n) train_bn s) (mid l) = (is_bn l \<and> train_bn)))"
proof -
  let ?k = "nat (max (int (length (children m)) + n) 0)"
  let ?F = "freeze m (Some n) train_bn s"
  have eq: "?F = fold make_trainable (drop ?k (children m))
             (fold (\<lambda>child. recursive_freeze child train_bn) (take ?k (children m)) s)"
    using assms by (simp add: freeze_take_drop slice_bound_neg Let_def)
  have len1: "length (take ?k (children m)) = ?k"
    using assms by auto
  have len2: "length (drop ?k (children m)) = min (nat (- n)) (length (children m))"
    using assms by auto
  have eq2: "?F = fold make_trainable (drop ?k (children m))
             (fold (\<lambda>l. leaf_frozen l train_bn) (concat (map leaves (take ?k (children m)))) s)"
    unfolding eq by (simp only: fold_recursive_freeze_leaf_frozen)
  have rest: "\<forall>c\<in>set (drop ?k (children m)).
               (\<forall>p\<in>set (parameters c). requires_grad ?F p)
             \<and> (\<forall>j\<in>set (modules c). training ?F j)"
  proof (intro ballI conjI)
    fix c p assume "c \<in> set (drop ?k (children m))" "p \<in> set (parameters c)"
    then have "p \<in> (\<Union>c\<in>set (drop ?k (children m)). set (all_params c))"
      by (auto simp: set_parameters)
    then show "requires_grad ?F p"
      unfolding eq by (simp only: requires_grad_fold_make_trainable simp_thms)
  next
    fix c j assume "c \<in> set (drop ?k (children m))" "j \<in> set (modules c)"
    then have "j \<in> (\<Union>c\<in>set (drop ?k (children m)). set (modules c))"
      by auto
    then show "training ?F j"
      unfolding eq by (simp only: training_fold_make_trainable simp_thms)
  qed
  have frozen: "distinct (concat (map all_params (children m))) \<longrightarrow>
             (\<forall>c\<in>set (take ?k (children m)). \<forall>l\<in>set (leaves c). \<forall>p\<in>set (own_params l).
                  requires_grad ?F p = (is_bn l \<and> train_bn))"
    unfolding eq by (intro impI ballI) (rule frozen_prefix_requires_grad)
  have mode: "distinct (concat (map modules (children m))) \<longrightarrow>
             (\<forall>c\<in>set (take ?k (children m)). \<forall>l\<in>set (leaves c).
                  training ?F (mid l) = (is_bn l \<and> train_bn))"
    unfolding eq by (intro impI ballI) (rule frozen_prefix_training)
  from eq len1 len2 eq2 rest frozen mode show ?thesis by (intro conjI)
qed

theorem freeze_negative_witness:
  "(- 1 :: int) < 0
   \<and> freeze net (Some (- 1)) True all_on
       = fold make_trainable [bnC]
           (fold (\<lambda>child. recursive_freeze child True) [blockA, linB] all_on)
   \<and> freeze net (Some (- 1)) True all_on
       = fold make_trainable [bnC]
           (fold (\<lambda>l. leaf_frozen l True) [conv1, bn1, linB] all_on)
   \<and> requires_grad all_on 1 = True
   \<and> requires_grad (freeze net (Some (- 1)) True all_on) 1 = False
   \<and> requires_grad (freeze net (Some (- 1)) True all_on) 3 = True
   \<and> requires_grad (freeze net (Some (- 1)) True all_on) 5 = False
   \<and> training all_on 11 = True
   \<and> training (freeze net (Some (- 1)) True all_on) 11 = False
   \<and> training (freeze net (Some (- 1)) True all_on) 12 = True
   \<and> training (freeze net (Some (- 1)) True all_on) 20 = False
   \<and> requires_grad all_off 7 = False
   \<and> requires_grad (freeze net (Some (- 1)) True all_off) 7
   \<and> training all_off 30 = False
   \<and> training (freeze net (Some (- 1)) True all_off) 30"
proof -
  have lt: "(- 1 :: int) < 0" by simp
  have k: "nat (max (int (length (children net)) + - 1) 0) = 2"
    by (simp add: net_def)
  have tk: "take 2 (children net) = [blockA, linB]" "drop 2 (children net) = [bnC]"
    by (simp_all add: net_def)
  have lv: "concat (map leaves [blockA, linB]) = [conv1, bn1, linB]"
    "leaves blockA = [conv1, bn1]" "leaves linB = [linB]"
    by (simp_all add: net_defs)
  have dp: "distinct (concat (map all_params (children net)))"
    by (simp add: net_defs)
  have dm: "distinct (concat (map modules (children net)))"
    by (simp add: net_defs)
  note T = freeze_negative [OF lt, of net True all_on, unfolded k tk lv(1)]
  note U = freeze_negative [OF lt, of net True all_off, unfolded k tk lv(1)]
  from T have 1: "freeze net (Some (- 1)) True all_on
       = fold make_trainable [bnC]
           (fold (\<lambda>child. recursive_freeze child True) [blockA, linB] all_on)"
    by (rule conjunct1)
  from T have 2: "freeze net (Some (- 1)) True all_on
       = fold make_trainable [bnC]
           (fold (\<lambda>l. leaf_frozen l True) [conv1, bn1, linB] all_on)"
    by (rule conjunct2 [THEN conjunct2, THEN conjunct2, THEN conjunct1])
  from T dp have f: "\<forall>c\<in>set [blockA, linB]. \<forall>l\<in>set (leaves c). \<forall>p\<in>set (own_params l).
       requires_grad (freeze net (Some (- 1)) True all_on) p = (is_bn l \<and> True)"
    by blast
  from T dm have g: "\<forall>c\<in>set [blockA, linB]. \<forall>l\<in>set (leaves c).
       training (freeze net (Some (- 1)) True all_on) (mid l) = (is_bn l \<and> True)"
    by blast
  from f have 3: "requires_grad (freeze net (Some (- 1)) True all_on) 1 = False"
    "requires_grad (freeze net (Some (- 1)) True all_on) 3 = True"
    "requires_grad (freeze net (Some (- 1)) True all_on) 5 = False"
    by (simp_all add: lv conv1_def bn1_def linB_def)
  from g have 4: "training (freeze net (Some (- 1)) True all_on) 11 = False"
    "training (freeze net (Some (- 1)) True all_on) 12 = True"
    "training (freeze net (Some (- 1)) True all_on) 20 = False"
    by (simp_all add: lv conv1_def bn1_def linB_def)
  from U have r: "\<forall>c\<in>set [bnC].
       (\<forall>p\<in>set (parameters c). requires_grad (freeze net (Some (- 1)) True all_off) p)
     \<and> (\<forall>j\<in>set (modules c). training (freeze net (Some (- 1)) True all_off) j)"
    by blast
  have "7 \<in> set (parameters bnC)" "30 \<in> set (modules bnC)"
    by (simp_all add: bnC_def parameters_def)
  with r have 5: "requires_grad (freeze net (Some (- 1)) True all_off) 7"
    "training (freeze net (Some (- 1)) True all_off) 30"
    by simp_all
  have 6: "requires_grad all_on 1 = True" "training all_on 11 = True"
    "requires_grad all_off 7 = False" "training all_off 30 = False"
    by (simp_all add: all_on_def all_off_def)
  from lt 1 2 6 3 4 5 show ?thesis by (intro conjI)
qed

text \<open>
  Claim C5, as the specification states it: \<open>freeze\<close> with an \<open>n\<close> that is not a
  non-negative integer fails and changes no flag. The code has no check of \<open>n\<close>: on the
  example network, frozen throughout, \<open>freeze\<close> with \<open>n = -1\<close> returns a state in which
  the parameter of the last child has become trainable.
\<close>

theorem freeze_negative_changes_flag:
  "requires_grad (freeze net (Some (- 1)) False all_off) 7 \<noteq> requires_grad all_off 7"
  by (simp add: net_defs run_defs)

text \<open>
  Claim C5, amended. For a negative \<open>n\<close>, \<open>freeze\<close> does not fail: it returns the state
  that \<open>freeze\<close> returns for the non-negative bound \<open>max (len children + n) 0\<close>.
\<close>

theorem freeze_negative_as_bound:
  assumes "n < 0"
  shows "freeze m (Some n) train_bn s
           = freeze m (Some (max (int (length (children m)) + n) 0)) train_bn s"
  using assms by (simp add: freeze_take_drop slice_bound_neg slice_bound_nonneg Let_def)

theorem freeze_negative_as_bound_witness:
  "(- 1 :: int) < 0
   \<and> freeze net (Some (- 1)) True all_off = freeze net (Some 2) True all_off"
  using freeze_negative_as_bound [of "- 1" net True all_off] by (simp add: net_def)

text \<open>
  Claim C10. \<open>freeze\<close> changes the flag of no parameter outside the parameters of the
  root's children, and the mode of no module outside the children's trees. A parameter
  registered on the root and on none of its children keeps its flag, and the root, which
  is not among its own descendants, keeps its mode.
\<close>

theorem freeze_frame:
  "(p \<notin> (\<Union>c\<in>set (children m). set (parameters c)) \<longrightarrow>
      requires_grad (freeze m n train_bn s) p = requires_grad s p)
   \<and> (j \<notin> (\<Union>c\<in>set (children m). set (modules c)) \<longrightarrow>
      training (freeze m n train_bn s) j = training s j)"
proof (intro conjI impI)
  let ?k = "slice_bound (case n of None \<Rightarrow> int (length (children m)) | Some i \<Rightarrow> i)
                (length (children m))"
  assume "p \<notin> (\<Union>c\<in>set (children m). set (parameters c))"
  then have out: "p \<notin> (\<Union>c\<in>set (children m). set (all_params c))"
    by (simp add: set_parameters)
  have "p \<notin> (\<Union>c\<in>set (take ?k (children m)). set (all_params c))"
       "p \<notin> (\<Union>c\<in>set (drop ?k (children m)). set (all_params c))"
    using out by (auto dest: in_set_takeD in_set_dropD)
  then show "requires_grad (freeze m n train_bn s) p = requires_grad s p"
    by (simp add: freeze_take_drop Let_def requires_grad_fold_make_trainable
          requires_grad_fold_recursive_freeze_frame del: UN_iff)
next
  let ?k = "slice_bound (case n of None \<Rightarrow> int (length (children m)) | Some i \<Rightarrow> i)
                (length (children m))"
  assume out: "j \<notin> (\<Union>c\<in>set (children m). set (modules c))"
  have "j \<notin> (\<Union>c\<in>set (take ?k (children m)). set (modules c))"
       "j \<notin> (\<Union>c\<in>set (drop ?k (children m)). set (modules c))"
    using out by (auto dest: in_set_takeD in_set_dropD)
  then show "training (freeze m n train_bn s) j = training s j"
    by (simp add: freeze_take_drop Let_def training_fold_make_trainable
          training_fold_recursive_freeze_frame del: UN_iff)
qed

theorem freeze_frame_witness:
  "9 \<in> set (own_params net)
   \<and> 9 \<notin> (\<Union>c\<in>set (children net). set (parameters c))
   \<and> requires_grad (freeze net (Some 1) True all_on) 9 = requires_grad all_on 9
   \<and> 0 \<notin> (\<Union>c\<in>set (children net). set (modules c))
   \<and> training (freeze net (Some 1) True all_on) 0 = training all_on 0"
proof -
  have a: "9 \<in> set (own_params net)" by (simp add: net_def)
  have b: "9 \<notin> (\<Union>c\<in>set (children net). set (parameters c))"
    by (simp add: net_defs parameters_def)
  have c: "0 \<notin> (\<Union>c\<in>set (children net). set (modules c))"
    by (simp add: net_defs)
  note T = freeze_frame [of 9 net "Some 1" True all_on 0]
  from T b have d: "requires_grad (freeze net (Some 1) True all_on) 9 = requires_grad all_on 9"
    by blast
  from T c have e: "training (freeze net (Some 1) True all_on) 0 = training all_on 0"
    by blast
  from a b d c e show ?thesis by (intro conjI)
qed

section \<open>Collecting parameters and adding a group\<close>

lemma filter_params_leaves:
  "filter_params m train_bn s =
     concat (map (\<lambda>l. filter (requires_grad s) (parameters l))
               (filter (\<lambda>l. \<not> (is_bn l \<and> train_bn)) (leaves m)))"
proof (induction m train_bn s rule: filter_params.induct)
  case (1 i b ps cs train_bn s)
  show ?case
  proof (cases "cs = []")
    case True then show ?thesis by simp
  next
    case False
    have "concat (map (\<lambda>child. filter_params child train_bn s) xs)
          = concat (map (\<lambda>l. filter (requires_grad s) (parameters l))
               (filter (\<lambda>l. \<not> (is_bn l \<and> train_bn)) (concat (map leaves xs))))"
      if "set xs \<subseteq> set cs" for xs
      using that
    proof (induction xs)
      case Nil then show ?case by simp
    next
      case (Cons x xs) then show ?case using 1 False by simp
    qed
    with False show ?thesis by simp
  qed
qed

lemma leaf_parameters_subset:
  "l \<in> set (leaves m) \<Longrightarrow> set (parameters l) \<subseteq> set (all_params m)"
proof -
  assume l: "l \<in> set (leaves m)"
  then have "children l = []" by (rule leaves_are_leaves)
  then have "set (parameters l) = set (own_params l)"
    by (cases l) (simp add: set_parameters)
  with l show ?thesis using leaf_params_subset by blast
qed

lemma filter_params_make_trainable:
  "filter_params m train_bn (make_trainable m s) = collected m train_bn"
proof -
  have "filter (requires_grad (make_trainable m s)) (parameters l) = parameters l"
    if "l \<in> set (leaves m)" for l
  proof -
    have "\<forall>p\<in>set (parameters l). requires_grad (make_trainable m s) p"
      using leaf_parameters_subset [OF that]
      by (auto simp: requires_grad_make_trainable)
    then show ?thesis by (simp only: filter_True)
  qed
  then have "map (\<lambda>l. filter (requires_grad (make_trainable m s)) (parameters l))
               (filter (\<lambda>l. \<not> (is_bn l \<and> train_bn)) (leaves m))
             = map parameters (filter (\<lambda>l. \<not> (is_bn l \<and> train_bn)) (leaves m))"
    by (intro map_cong refl) simp
  then show ?thesis
    by (simp only: filter_params_leaves collected_def)
qed

lemma set_collected:
  "set (collected m train_bn)
     = (\<Union>l\<in>{l \<in> set (leaves m). \<not> (is_bn l \<and> train_bn)}. set (own_params l))"
proof -
  have "set (parameters l) = set (own_params l)" if "l \<in> set (leaves m)" for l
    using leaves_are_leaves [OF that] by (cases l) (simp add: set_parameters)
  then show ?thesis by (auto simp: collected_def)
qed

lemma unfreeze_cases:
  "unfreeze_and_add_param_group m optimizer lr_opt train_bn s =
     (if lr_opt = None \<and> optimizer = [] then Inl (IndexError, make_trainable m s)
      else if overlaps (collected m train_bn) optimizer then Inl (ValueError, make_trainable m s)
      else Inr (make_trainable m s,
                optimizer @ [\<lparr>params = collected m train_bn,
                               lr = base_lr optimizer lr_opt / 10\<rparr>]))"
  by (cases lr_opt; cases optimizer)
     (simp_all add: unfreeze_and_add_param_group_def Let_def add_param_group_def
        filter_params_make_trainable base_lr_def)

lemma overlaps_iff:
  "overlaps ps optimizer \<longleftrightarrow> set ps \<inter> (\<Union>g\<in>set optimizer. set (params g)) \<noteq> {}"
  by (auto simp: overlaps_def list_ex_iff)

text \<open>
  Claim C3, as the specification states it: for every module and optimizer the call
  appends exactly one group. After the first two children of the example network are
  frozen and group 0 is built, unfreezing the third child, whose parameter is in group 0,
  raises the optimizer's \<^verbatim>\<open>ValueError\<close>; so does unfreezing the second child a second
  time. No group is appended by a call that raises.
\<close>

theorem unfreeze_rejected_by_optimizer:
  "configure_optimizers net (1 / 100) (freeze net (Some 2) True all_on) = Inr opt_net
   \<and> unfreeze_and_add_param_group bnC opt_net None False (freeze net (Some 2) True all_on)
       = Inl (ValueError, make_trainable bnC (freeze net (Some 2) True all_on))
   \<and> run [Unfreeze linB (Some (1 / 10000)) True, Unfreeze linB (Some (1 / 10000)) True]
         (freeze net (Some 2) True all_on, opt_net)
       = Inl (ValueError,
              make_trainable linB (make_trainable linB (freeze net (Some 2) True all_on)))"
proof -
  let ?s0 = "freeze net (Some 2) True all_on"
  have cf: "configure_optimizers net (1 / 100) ?s0 = Inr opt_net"
    by (simp add: configure_optimizers_def opt_net_def net_defs run_defs)
  have cC: "collected bnC False = [7]"
    by (simp add: collected_def net_defs parameters_def)
  have cB: "collected linB True = [5, 6]"
    by (simp add: collected_def net_defs parameters_def)
  have 1: "unfreeze_and_add_param_group bnC opt_net None False ?s0
       = Inl (ValueError, make_trainable bnC ?s0)"
    by (simp add: unfreeze_cases cC overlaps_def opt_net_def)
  have u1: "unfreeze_and_add_param_group linB opt_net (Some (1 / 10000)) True ?s0
              = Inr (make_trainable linB ?s0, opt_net @ [\<lparr>params = [5, 6], lr = 1 / 100000\<rparr>])"
    by (simp add: unfreeze_cases cB base_lr_def overlaps_def opt_net_def)
  have u2: "unfreeze_and_add_param_group linB (opt_net @ [\<lparr>params = [5, 6], lr = 1 / 100000\<rparr>])
              (Some (1 / 10000)) True (make_trainable linB ?s0)
              = Inl (ValueError, make_trainable linB (make_trainable linB ?s0))"
    by (simp add: unfreeze_cases cB overlaps_def opt_net_def)
  have 2: "run [Unfreeze linB (Some (1 / 10000)) True, Unfreeze linB (Some (1 / 10000)) True]
         (?s0, opt_net)
       = Inl (ValueError, make_trainable linB (make_trainable linB ?s0))"
    using u1 u2 by simp
  from cf 1 2 show ?thesis by (intro conjI)
qed

text \<open>
  Claim C3, amended. When group 0 exists or a rate is given, and no collected parameter
  belongs to a group of the optimizer already, the call returns the optimizer with
  exactly one group appended, whose learning rate is a tenth of the given rate, or of the
  rate of group 0 when none is given. Whenever the call returns, the optimizer is the old
  one with one group appended, of that rate. In every other case the call raises.
\<close>

theorem unfreeze_new_group_lr:
  "((lr_opt = None \<longrightarrow> optimizer \<noteq> []) \<and> \<not> overlaps (filter_params m train_bn (make_trainable m s)) optimizer \<longrightarrow>
      (\<exists>g. unfreeze_and_add_param_group m optimizer lr_opt train_bn s
              = Inr (make_trainable m s, optimizer @ [g])
           \<and> lr g = (case lr_opt of None \<Rightarrow> lr (optimizer ! 0) | Some l \<Rightarrow> l) / 10))
   \<and> (\<forall>s' optimizer'.
         unfreeze_and_add_param_group m optimizer lr_opt train_bn s = Inr (s', optimizer') \<longrightarrow>
           length optimizer' = Suc (length optimizer)
         \<and> butlast optimizer' = optimizer
         \<and> lr (last optimizer') = (case lr_opt of None \<Rightarrow> lr (optimizer ! 0) | Some l \<Rightarrow> l) / 10
         \<and> (lr_opt = None \<longrightarrow> optimizer \<noteq> []))
   \<and> ((lr_opt = None \<and> optimizer = [])
        \<or> overlaps (filter_params m train_bn (make_trainable m s)) optimizer \<longrightarrow>
      (\<exists>e. unfreeze_and_add_param_group m optimizer lr_opt train_bn s = Inl e))"
proof (intro conjI)
  let ?base = "(case lr_opt of None \<Rightarrow> lr (optimizer ! 0) | Some l \<Rightarrow> l)"
  let ?g = "\<lparr>params = collected m train_bn, lr = ?base / 10\<rparr>"
  show "(lr_opt = None \<longrightarrow> optimizer \<noteq> [])
        \<and> \<not> overlaps (filter_params m train_bn (make_trainable m s)) optimizer \<longrightarrow>
      (\<exists>g. unfreeze_and_add_param_group m optimizer lr_opt train_bn s
              = Inr (make_trainable m s, optimizer @ [g])
           \<and> lr g = ?base / 10)"
  proof
    assume a: "(lr_opt = None \<longrightarrow> optimizer \<noteq> [])
        \<and> \<not> overlaps (filter_params m train_bn (make_trainable m s)) optimizer"
    then have "\<not> overlaps (collected m train_bn) optimizer"
      by (simp add: filter_params_make_trainable)
    with a have "unfreeze_and_add_param_group m optimizer lr_opt train_bn s
              = Inr (make_trainable m s, optimizer @ [?g])"
      by (auto simp: unfreeze_cases base_lr_def)
    moreover have "lr ?g = ?base / 10" by simp
    ultimately show "\<exists>g. unfreeze_and_add_param_group m optimizer lr_opt train_bn s
              = Inr (make_trainable m s, optimizer @ [g])
           \<and> lr g = ?base / 10"
      by blast
  qed
next
  let ?base = "(case lr_opt of None \<Rightarrow> lr (optimizer ! 0) | Some l \<Rightarrow> l)"
  show "\<forall>s' optimizer'.
         unfreeze_and_add_param_group m optimizer lr_opt train_bn s = Inr (s', optimizer') \<longrightarrow>
           length optimizer' = Suc (length optimizer)
         \<and> butlast optimizer' = optimizer
         \<and> lr (last optimizer') = ?base / 10
         \<and> (lr_opt = None \<longrightarrow> optimizer \<noteq> [])"
  proof (intro allI impI)
    fix s' optimizer'
    assume "unfreeze_and_add_param_group m optimizer lr_opt train_bn s = Inr (s', optimizer')"
    then have ok: "\<not> (lr_opt = None \<and> optimizer = [])"
      and o': "optimizer' = optimizer @ [\<lparr>params = collected m train_bn, lr = ?base / 10\<rparr>]"
      by (auto simp: unfreeze_cases base_lr_def split: if_splits)
    from ok show "length optimizer' = Suc (length optimizer)
         \<and> butlast optimizer' = optimizer
         \<and> lr (last optimizer') = ?base / 10
         \<and> (lr_opt = None \<longrightarrow> optimizer \<noteq> [])"
      unfolding o' by auto
  qed
next
  show "(lr_opt = None \<and> optimizer = [])
        \<or> overlaps (filter_params m train_bn (make_trainable m s)) optimizer \<longrightarrow>
      (\<exists>e. unfreeze_and_add_param_group m optimizer lr_opt train_bn s = Inl e)"
    by (auto simp: unfreeze_cases filter_params_make_trainable)
qed

theorem unfreeze_new_group_lr_witness:
  "\<not> overlaps (filter_params blockA True (make_trainable blockA all_off)) opt0
   \<and> unfreeze_and_add_param_group blockA opt0 (Some (1 / 10000)) True all_off
       = Inr (make_trainable blockA all_off, opt0 @ [\<lparr>params = [1, 2], lr = 1 / 100000\<rparr>])
   \<and> unfreeze_and_add_param_group blockA opt0 None True all_off
       = Inr (make_trainable blockA all_off, opt0 @ [\<lparr>params = [1, 2], lr = 1 / 1000\<rparr>])
   \<and> lr (last (opt0 @ [\<lparr>params = [1, 2], lr = 1 / 1000\<rparr>])) = lr (opt0 ! 0) / 10"
proof -
  have c: "collected blockA True = [1, 2]"
    by (simp add: collected_def net_defs parameters_def)
  have n: "\<not> overlaps (collected blockA True) opt0"
    by (simp add: c overlaps_def opt0_def)
  have n': "\<not> overlaps (filter_params blockA True (make_trainable blockA all_off)) opt0"
    unfolding filter_params_make_trainable by (rule n)
  have o: "opt0 \<noteq> []" by (simp add: opt0_def)
  have e1: "unfreeze_and_add_param_group blockA opt0 (Some (1 / 10000)) True all_off
       = Inr (make_trainable blockA all_off, opt0 @ [\<lparr>params = [1, 2], lr = 1 / 100000\<rparr>])"
    using n by (simp add: unfreeze_cases c base_lr_def)
  have e2: "unfreeze_and_add_param_group blockA opt0 None True all_off
       = Inr (make_trainable blockA all_off, opt0 @ [\<lparr>params = [1, 2], lr = 1 / 1000\<rparr>])"
    using n o by (simp add: unfreeze_cases c base_lr_def) (simp add: opt0_def)
  note T = unfreeze_new_group_lr [of None opt0 blockA True all_off]
  from T e2 have "lr (last (opt0 @ [\<lparr>params = [1, 2], lr = 1 / 1000\<rparr>]))
       = (case None of None \<Rightarrow> lr (opt0 ! 0) | Some l \<Rightarrow> l) / 10"
    by blast
  then have 3: "lr (last (opt0 @ [\<lparr>params = [1, 2], lr = 1 / 1000\<rparr>])) = lr (opt0 ! 0) / 10"
    by (simp only: option.case)
  from n' e1 e2 3 show ?thesis by (intro conjI)
qed

text \<open>
  Claim C4, as the specification states it: the collected parameters are the trainable
  parameters of the subtree, without those of normalization layers when \<open>train_bn\<close> is
  false. The code has the opposite test. With \<open>train_bn\<close> false, the parameter of a
  batch normalization layer is collected; with \<open>train_bn\<close> true it is trainable and is
  not collected.
\<close>

theorem normalization_parameters_collected:
  "is_bn bnC \<and> own_params bnC = [7]
   \<and> unfreeze_and_add_param_group bnC opt0 None False all_off
       = Inr (make_trainable bnC all_off, opt0 @ [\<lparr>params = [7], lr = 1 / 1000\<rparr>])
   \<and> requires_grad (make_trainable bnC all_off) 7
   \<and> unfreeze_and_add_param_group bnC opt0 None True all_off
       = Inr (make_trainable bnC all_off, opt0 @ [\<lparr>params = [], lr = 1 / 1000\<rparr>])"
  by (simp add: unfreeze_and_add_param_group_def add_param_group_def overlaps_def Let_def opt0_def
        bnC_def parameters_def make_trainable_def set_requires_grad_def all_off_def)

text \<open>
  Claim C4, amended. The parameters collected for the new group are those of the leaves
  of the subtree, leaf by leaf, without the leaves that are normalization layers when
  \<open>train_bn\<close> is true; each of them is trainable when it is collected. When the call
  returns, they are the parameters of the appended group.
\<close>

theorem collected_parameters:
  "filter_params m train_bn (make_trainable m s)
     = concat (map parameters (filter (\<lambda>l. \<not> (is_bn l \<and> train_bn)) (leaves m)))
   \<and> set (filter_params m train_bn (make_trainable m s))
     = (\<Union>l\<in>{l \<in> set (leaves m). \<not> (is_bn l \<and> train_bn)}. set (own_params l))
   \<and> (\<forall>p\<in>set (filter_params m train_bn (make_trainable m s)).
         requires_grad (make_trainable m s) p)
   \<and> (\<forall>s' optimizer'.
         unfreeze_and_add_param_group m optimizer lr_opt train_bn s = Inr (s', optimizer') \<longrightarrow>
           s' = make_trainable m s \<and> params (last optimizer') = filter_params m train_bn s')"
proof (intro conjI)
  show "filter_params m train_bn (make_trainable m s)
     = concat (map parameters (filter (\<lambda>l. \<not> (is_bn l \<and> train_bn)) (leaves m)))"
    by (simp only: filter_params_make_trainable collected_def)
  show "set (filter_params m train_bn (make_trainable m s))
     = (\<Union>l\<in>{l \<in> set (leaves m). \<not> (is_bn l \<and> train_bn)}. set (own_params l))"
    by (simp only: filter_params_make_trainable set_collected)
  show "\<forall>p\<in>set (filter_params m train_bn (make_trainable m s)).
         requires_grad (make_trainable m s) p"
  proof
    fix p assume "p \<in> set (filter_params m train_bn (make_trainable m s))"
    then obtain l where "l \<in> set (leaves m)" "p \<in> set (own_params l)"
      unfolding filter_params_make_trainable set_collected by blast
    then have "p \<in> set (all_params m)" using leaf_params_subset by blast
    then show "requires_grad (make_trainable m s) p"
      by (simp add: requires_grad_make_trainable)
  qed
  show "\<forall>s' optimizer'.
         unfreeze_and_add_param_group m optimizer lr_opt train_bn s = Inr (s', optimizer') \<longrightarrow>
           s' = make_trainable m s \<and> params (last optimizer') = filter_params m train_bn s'"
    by (auto simp: unfreeze_cases filter_params_make_trainable split: if_splits)
qed

theorem collected_parameters_witness:
  "filter_params net True (make_trainable net all_off) = [1, 2, 5, 6]
   \<and> filter_params net False (make_trainable net all_off) = [1, 2, 3, 4, 5, 6, 7]
   \<and> requires_grad (make_trainable net all_off) 5
   \<and> unfreeze_and_add_param_group blockA opt0 None True all_off
       = Inr (make_trainable blockA all_off, opt0 @ [\<lparr>params = [1, 2], lr = 1 / 1000\<rparr>])
   \<and> params (last (opt0 @ [\<lparr>params = [1, 2], lr = 1 / 1000\<rparr>]))
       = filter_params blockA True (make_trainable blockA all_off)"
proof -
  have lv: "leaves net = [conv1, bn1, linB, bnC]" by (simp add: net_defs)
  note T = collected_parameters [of net True all_off]
  note F = collected_parameters [of net False all_off]
  from T have 1: "filter_params net True (make_trainable net all_off) = [1, 2, 5, 6]"
    by (simp add: lv) (simp add: net_defs parameters_def)
  from F have 2: "filter_params net False (make_trainable net all_off) = [1, 2, 3, 4, 5, 6, 7]"
    by (simp add: lv) (simp add: net_defs parameters_def)
  from T have "\<forall>p\<in>set (filter_params net True (make_trainable net all_off)).
         requires_grad (make_trainable net all_off) p"
    by blast
  then have 3: "requires_grad (make_trainable net all_off) 5"
    unfolding 1 by simp
  have c: "collected blockA True = [1, 2]"
    by (simp add: collected_def net_defs parameters_def)
  have n: "\<not> overlaps (collected blockA True) opt0"
    by (simp add: c overlaps_def opt0_def)
  have o: "opt0 \<noteq> []" by (simp add: opt0_def)
  have 4: "unfreeze_and_add_param_group blockA opt0 None True all_off
       = Inr (make_trainable blockA all_off, opt0 @ [\<lparr>params = [1, 2], lr = 1 / 1000\<rparr>])"
    using n o by (simp add: unfreeze_cases c base_lr_def) (simp add: opt0_def)
  from collected_parameters [of blockA True all_off opt0 None] 4
  have 5: "params (last (opt0 @ [\<lparr>params = [1, 2], lr = 1 / 1000\<rparr>]))
       = filter_params blockA True (make_trainable blockA all_off)"
    by blast
  from 1 2 3 4 5 show ?thesis by (intro conjI)
qed

text \<open>
  Claim C6, as the specification states it: the call fails when nothing is collected and
  appends no group. On a leaf without parameters the call returns, and the optimizer has
  a new group with no parameters.
\<close>

theorem empty_group_appended:
  "filter_params relu True (make_trainable relu all_off) = []
   \<and> unfreeze_and_add_param_group relu opt0 None True all_off
       = Inr (make_trainable relu all_off, opt0 @ [\<lparr>params = [], lr = 1 / 1000\<rparr>])"
  by (simp add: unfreeze_and_add_param_group_def add_param_group_def overlaps_def Let_def opt0_def
        relu_def parameters_def)

text \<open>
  Claim C6, amended. When nothing is collected (and group 0 exists or a rate is given)
  the call returns and appends a group without parameters. The call fails exactly when
  no rate is given and the optimizer has no group, or when a collected parameter belongs
  to a group of the optimizer already.
\<close>

theorem unfreeze_failures:
  "(filter_params m train_bn (make_trainable m s) = [] \<and> (lr_opt = None \<longrightarrow> optimizer \<noteq> []) \<longrightarrow>
      unfreeze_and_add_param_group m optimizer lr_opt train_bn s
        = Inr (make_trainable m s,
               optimizer @ [\<lparr>params = [],
                 lr = (case lr_opt of None \<Rightarrow> lr (optimizer ! 0) | Some l \<Rightarrow> l) / 10\<rparr>]))
   \<and> ((\<exists>e. unfreeze_and_add_param_group m optimizer lr_opt train_bn s = Inl e) \<longleftrightarrow>
        (lr_opt = None \<and> optimizer = [])
        \<or> (\<exists>p\<in>set (filter_params m train_bn (make_trainable m s)).
              \<exists>g\<in>set optimizer. p \<in> set (params g)))"
proof (intro conjI impI)
  assume a: "filter_params m train_bn (make_trainable m s) = [] \<and> (lr_opt = None \<longrightarrow> optimizer \<noteq> [])"
  then have "collected m train_bn = []" by (simp only: filter_params_make_trainable)
  with a show "unfreeze_and_add_param_group m optimizer lr_opt train_bn s
        = Inr (make_trainable m s,
               optimizer @ [\<lparr>params = [],
                 lr = (case lr_opt of None \<Rightarrow> lr (optimizer ! 0) | Some l \<Rightarrow> l) / 10\<rparr>])"
    by (auto simp: unfreeze_cases base_lr_def overlaps_def)
next
  have "overlaps (collected m train_bn) optimizer \<longleftrightarrow>
        (\<exists>p\<in>set (filter_params m train_bn (make_trainable m s)).
              \<exists>g\<in>set optimizer. p \<in> set (params g))"
    by (auto simp: overlaps_iff filter_params_make_trainable)
  then show "(\<exists>e. unfreeze_and_add_param_group m optimizer lr_opt train_bn s = Inl e) \<longleftrightarrow>
        (lr_opt = None \<and> optimizer = [])
        \<or> (\<exists>p\<in>set (filter_params m train_bn (make_trainable m s)).
              \<exists>g\<in>set optimizer. p \<in> set (params g))"
    by (simp add: unfreeze_cases)
qed

theorem unfreeze_failures_witness:
  "filter_params bnC True (make_trainable bnC all_off) = []
   \<and> opt0 \<noteq> []
   \<and> unfreeze_and_add_param_group bnC opt0 None True all_off
       = Inr (make_trainable bnC all_off, opt0 @ [\<lparr>params = [], lr = lr (opt0 ! 0) / 10\<rparr>])
   \<and> unfreeze_and_add_param_group linB [\<lparr>params = [5], lr = 1\<rparr>] (Some 1) True all_off
       = Inl (ValueError, make_trainable linB all_off)
   \<and> unfreeze_and_add_param_group linB [] None True all_off
       = Inl (IndexError, make_trainable linB all_off)"
proof -
  have 1: "filter_params bnC True (make_trainable bnC all_off) = []"
    by (simp add: bnC_def)
  have o: "opt0 \<noteq> []" by (simp add: opt0_def)
  from unfreeze_failures [of bnC True all_off None opt0] 1 o
  have 2: "unfreeze_and_add_param_group bnC opt0 None True all_off
       = Inr (make_trainable bnC all_off, opt0 @ [\<lparr>params = [], lr = lr (opt0 ! 0) / 10\<rparr>])"
    by simp
  have 4: "unfreeze_and_add_param_group linB [\<lparr>params = [5], lr = 1\<rparr>] (Some 1) True all_off
       = Inl (ValueError, make_trainable linB all_off)"
    by (simp add: unfreeze_cases overlaps_def collected_def linB_def parameters_def)
  have 5: "unfreeze_and_add_param_group linB [] None True all_off
       = Inl (IndexError, make_trainable linB all_off)"
    by (simp add: unfreeze_cases)
  from 1 o 2 4 5 show ?thesis by (intro conjI)
qed

section \<open>Sequences of calls\<close>


















section \<open>The stage scheduler is idempotent\<close>

lemma on_epoch_end_stops:
  assumes "on_epoch_end resolve train_bn schedule epoch w = Inr w'"
  shows "\<not> (fst w' < length schedule \<and> fst (schedule ! fst w') \<le> epoch)"
  using assms
proof (induction resolve train_bn schedule epoch w rule: on_epoch_end.induct)
  case (1 resolve train_bn schedule epoch pointer s optimizer)
  show ?case
  proof (cases "pointer < length schedule \<and> fst (schedule ! pointer) \<le> epoch")
    case True
    with "1.prems" obtain m u
      where r: "resolve (fst (snd (schedule ! pointer))) = Some m"
        and u: "unfreeze_and_add_param_group m optimizer (snd (snd (schedule ! pointer))) train_bn s
                  = Inr u"
        and rec: "on_epoch_end resolve train_bn schedule epoch (Suc pointer, fst u, snd u) = Inr w'"
      by (auto simp: on_epoch_end.simps split: option.splits sum.splits)
    from "1.IH" [OF True r u rec] show ?thesis .
  next
    case False
    with "1.prems" have "w' = (pointer, s, optimizer)"
      by (simp add: on_epoch_end.simps)
    with False show ?thesis by simp
  qed
qed

lemma on_epoch_end_count:
  assumes "on_epoch_end resolve train_bn schedule epoch (pointer, s, optimizer)
             = Inr (pointer', s', optimizer')"
  shows "pointer \<le> pointer' \<and> pointer' \<le> max pointer (length schedule)
         \<and> length optimizer' = length optimizer + (pointer' - pointer)"
  using assms
proof (induction resolve train_bn schedule epoch "(pointer, s, optimizer)"
    arbitrary: pointer s optimizer rule: on_epoch_end.induct)
  case (1 resolve train_bn schedule epoch pointer s optimizer)
  show ?case
  proof (cases "pointer < length schedule \<and> fst (schedule ! pointer) \<le> epoch")
    case True
    with "1.prems" obtain m u
      where r: "resolve (fst (snd (schedule ! pointer))) = Some m"
        and u: "unfreeze_and_add_param_group m optimizer (snd (snd (schedule ! pointer))) train_bn s
                  = Inr u"
        and rec: "on_epoch_end resolve train_bn schedule epoch (Suc pointer, fst u, snd u)
                  = Inr (pointer', s', optimizer')"
      by (auto simp: on_epoch_end.simps split: option.splits sum.splits)
    from u have len: "length (snd u) = Suc (length optimizer)"
      by (auto simp: unfreeze_cases split: if_splits)
    from "1.hyps" [OF True r u rec] len True show ?thesis by auto
  next
    case False
    with "1.prems" show ?thesis by (simp add: on_epoch_end.simps)
  qed
qed

text \<open>
  Claim C8. When \<open>on_epoch_end\<close> has returned for an epoch index, a further call with the
  same or an earlier index changes nothing: no stage fires and no group is appended. A
  call never moves the pointer back and appends as many groups as it advances the
  pointer. Over any sequence of calls from the initial pointer, the number of appended
  groups is the pointer, which never exceeds the number of stages: every stage fires at
  most once.
\<close>

theorem on_epoch_end_idempotent:
  "(on_epoch_end resolve train_bn schedule epoch (pointer, s, optimizer)
      = Inr (pointer', s', optimizer') \<and> epoch' \<le> epoch \<longrightarrow>
        on_epoch_end resolve train_bn schedule epoch' (pointer', s', optimizer')
          = Inr (pointer', s', optimizer')
      \<and> pointer \<le> pointer'
      \<and> pointer' \<le> max pointer (length schedule)
      \<and> length optimizer' = length optimizer + (pointer' - pointer))
   \<and> (epochs resolve train_bn schedule es (0, s, optimizer) = Inr (pointer', s', optimizer') \<longrightarrow>
        pointer' \<le> length schedule \<and> length optimizer' = length optimizer + pointer')"
proof (rule conjI)
  show "on_epoch_end resolve train_bn schedule epoch (pointer, s, optimizer)
      = Inr (pointer', s', optimizer') \<and> epoch' \<le> epoch \<longrightarrow>
        on_epoch_end resolve train_bn schedule epoch' (pointer', s', optimizer')
          = Inr (pointer', s', optimizer')
      \<and> pointer \<le> pointer'
      \<and> pointer' \<le> max pointer (length schedule)
      \<and> length optimizer' = length optimizer + (pointer' - pointer)"
  proof (intro impI)
    assume a: "on_epoch_end resolve train_bn schedule epoch (pointer, s, optimizer)
      = Inr (pointer', s', optimizer') \<and> epoch' \<le> epoch"
    then have "\<not> (pointer' < length schedule \<and> fst (schedule ! pointer') \<le> epoch)"
      using on_epoch_end_stops by fastforce
    with a have "\<not> (pointer' < length schedule \<and> fst (schedule ! pointer') \<le> epoch')"
      by auto
    then have "on_epoch_end resolve train_bn schedule epoch' (pointer', s', optimizer')
          = Inr (pointer', s', optimizer')"
      by (subst on_epoch_end.simps) (simp only: if_False)
    with on_epoch_end_count a show "on_epoch_end resolve train_bn schedule epoch' (pointer', s', optimizer')
          = Inr (pointer', s', optimizer')
      \<and> pointer \<le> pointer'
      \<and> pointer' \<le> max pointer (length schedule)
      \<and> length optimizer' = length optimizer + (pointer' - pointer)"
      by blast
  qed
next
  have "epochs resolve train_bn schedule es (pointer, s, optimizer) = Inr (pointer', s', optimizer') \<Longrightarrow>
        pointer \<le> pointer' \<and> pointer' \<le> max pointer (length schedule)
        \<and> length optimizer' = length optimizer + (pointer' - pointer)"
    for pointer
  proof (induction es arbitrary: pointer s optimizer)
    case Nil
    then show ?case by simp
  next
    case (Cons e es)
    from Cons.prems obtain p1 s1 o1
      where 1: "on_epoch_end resolve train_bn schedule e (pointer, s, optimizer) = Inr (p1, s1, o1)"
        and 2: "epochs resolve train_bn schedule es (p1, s1, o1) = Inr (pointer', s', optimizer')"
      by (auto split: sum.splits)
    from on_epoch_end_count [OF 1] Cons.IH [OF 2] show ?case by auto
  qed
  from this [of 0]
  show "epochs resolve train_bn schedule es (0, s, optimizer) = Inr (pointer', s', optimizer') \<longrightarrow>
        pointer' \<le> length schedule \<and> length optimizer' = length optimizer + pointer'"
    by auto
qed

theorem on_epoch_end_idempotent_witness:
  "on_epoch_end pick True plan 7 (0, head_only, opt0)
     = Inr (1, make_trainable blockA head_only, opt0 @ [\<lparr>params = [1, 2], lr = 1 / 100000\<rparr>])
   \<and> (3::nat) \<le> 7
   \<and> on_epoch_end pick True plan 3
        (1, make_trainable blockA head_only, opt0 @ [\<lparr>params = [1, 2], lr = 1 / 100000\<rparr>])
     = Inr (1, make_trainable blockA head_only, opt0 @ [\<lparr>params = [1, 2], lr = 1 / 100000\<rparr>])
   \<and> on_epoch_end pick True plan 7
        (1, make_trainable blockA head_only, opt0 @ [\<lparr>params = [1, 2], lr = 1 / 100000\<rparr>])
     = Inr (1, make_trainable blockA head_only, opt0 @ [\<lparr>params = [1, 2], lr = 1 / 100000\<rparr>])
   \<and> epochs pick True plan [7, 7, 12, 3] (0, head_only, opt0)
     = Inr (2, make_trainable linB (make_trainable blockA head_only),
            opt0 @ [\<lparr>params = [1, 2], lr = 1 / 100000\<rparr>, \<lparr>params = [5, 6], lr = 1 / 1000\<rparr>])
   \<and> length (opt0 @ [\<lparr>params = [1, 2], lr = 1 / 100000\<rparr>, \<lparr>params = [5, 6], lr = 1 / 1000\<rparr>])
     = length opt0 + 2"
proof -
  let ?s1 = "make_trainable blockA head_only"
  let ?g1 = "\<lparr>params = [1, 2], lr = 1 / 100000\<rparr>"
  let ?g2 = "\<lparr>params = [5, 6], lr = 1 / 1000\<rparr>"
  have cA: "collected blockA True = [1, 2]"
    by (simp add: collected_def net_defs parameters_def)
  have cB: "collected linB True = [5, 6]"
    by (simp add: collected_def net_defs parameters_def)
  have u1: "unfreeze_and_add_param_group blockA opt0 (Some (1 / 10000)) True head_only
              = Inr (?s1, opt0 @ [?g1])"
    by (simp add: unfreeze_cases cA base_lr_def overlaps_def opt0_def)
  have u2: "unfreeze_and_add_param_group linB (opt0 @ [?g1]) None True ?s1
              = Inr (make_trainable linB ?s1, opt0 @ [?g1, ?g2])"
    by (simp add: unfreeze_cases cB base_lr_def overlaps_def opt0_def)
  have a: "on_epoch_end pick True plan 7 (0, head_only, opt0) = Inr (1, ?s1, opt0 @ [?g1])"
    using u1 by (simp add: on_epoch_end.simps plan_def pick_def)
  note T = on_epoch_end_idempotent [where resolve = pick and train_bn = True and schedule = plan
      and epoch = 7 and pointer = 0 and s = head_only and optimizer = opt0 and pointer' = 1
      and s' = ?s1 and optimizer' = "opt0 @ [?g1]"]
  have le: "(3::nat) \<le> 7" by simp
  from T [where epoch' = 3] a le
  have b: "on_epoch_end pick True plan 3 (1, ?s1, opt0 @ [?g1]) = Inr (1, ?s1, opt0 @ [?g1])"
    by blast
  from T [where epoch' = 7] a
  have c: "on_epoch_end pick True plan 7 (1, ?s1, opt0 @ [?g1]) = Inr (1, ?s1, opt0 @ [?g1])"
    by blast
  have d12: "on_epoch_end pick True plan 12 (1, ?s1, opt0 @ [?g1])
               = Inr (2, make_trainable linB ?s1, opt0 @ [?g1, ?g2])"
    using u2 by (simp add: on_epoch_end.simps plan_def pick_def)
  have d3: "on_epoch_end pick True plan 3 (2, make_trainable linB ?s1, opt0 @ [?g1, ?g2])
               = Inr (2, make_trainable linB ?s1, opt0 @ [?g1, ?g2])"
    by (simp add: on_epoch_end.simps plan_def)
  have e: "epochs pick True plan [7, 7, 12, 3] (0, head_only, opt0)
     = Inr (2, make_trainable linB ?s1, opt0 @ [?g1, ?g2])"
    using a c d12 d3 by simp
  have f: "length (opt0 @ [?g1, ?g2]) = length opt0 + 2" by simp
  from a le b c e f show ?thesis by (intro conjI)
qed

end
